theory Spec2Isabelle
  imports Main "HOL-Library.AList" "HOL-Library.List_Lexorder"
begin

section \<open>Python strings\<close>

text \<open>
  A Python \<^verbatim>\<open>str\<close> is a sequence of code points, and Python compares two of them code point
  by code point, a proper prefix first. File names reach the program as such strings (what
  \<^verbatim>\<open>os.fsdecode\<close> makes of the names on disk), so names, paths, arguments and printed text
  are lists of code points here, ordered lexicographically. \<open>str\<close> turns a literal of the
  source, which is ASCII, into its code points. The contents of files are bytes.
\<close>

type_synonym pystr = "nat list"

definition str :: "string \<Rightarrow> pystr" where
  "str s = map of_char s"

section \<open>The file tree under the project root\<close>

text \<open>
  \<^verbatim>\<open>dev_scripts/copy_pokemon_backs.py\<close> works on the directory tree below the project root
  (the parent of the directory that holds the script). A node of that tree is a regular file
  with its bytes or a directory with its listing, in the order \<^verbatim>\<open>iterdir\<close> yields it.
  Paths are lists of names relative to the project root. Symbolic links, permissions and
  file metadata are not part of the model.
\<close>

datatype node = File string | Dir "(pystr \<times> node) list"

datatype error =
    FileExistsError | FileNotFoundError | IsADirectoryError | NotADirectoryError
  | OSError | UnicodeDecodeError

fun lookup :: "node \<Rightarrow> pystr list \<Rightarrow> node option" where
  "lookup n [] = Some n"
| "lookup (File c) (x # xs) = None"
| "lookup (Dir es) (x # xs) = (case map_of es x of None \<Rightarrow> None | Some n \<Rightarrow> lookup n xs)"

definition is_dir :: "node \<Rightarrow> pystr list \<Rightarrow> bool" where
  "is_dir fs p = (case lookup fs p of Some (Dir es) \<Rightarrow> True | _ \<Rightarrow> False)"

definition is_file :: "node \<Rightarrow> pystr list \<Rightarrow> bool" where
  "is_file fs p = (case lookup fs p of Some (File c) \<Rightarrow> True | _ \<Rightarrow> False)"

text \<open>\<^verbatim>\<open>Path.iterdir\<close>: the names in a directory, in the order of its listing.\<close>

definition iterdir :: "node \<Rightarrow> pystr list \<Rightarrow> pystr list" where
  "iterdir fs p = (case lookup fs p of Some (Dir es) \<Rightarrow> map fst es | _ \<Rightarrow> [])"

text \<open>
  \<^verbatim>\<open>shutil.rmtree\<close>: removes the directory at the path with everything below it. The root of
  the model has no parent to remove it from; the program never asks for that.
\<close>

fun rmtree :: "pystr list \<Rightarrow> node \<Rightarrow> error + node" where
  "rmtree [] n = Inl NotADirectoryError"
| "rmtree (x # xs) (File c) = Inl NotADirectoryError"
| "rmtree [x] (Dir es) =
     (case map_of es x of
        None \<Rightarrow> Inl FileNotFoundError
      | Some (File c) \<Rightarrow> Inl NotADirectoryError
      | Some (Dir ds) \<Rightarrow> Inr (Dir (AList.delete x es)))"
| "rmtree (x # y # ys) (Dir es) =
     (case map_of es x of
        None \<Rightarrow> Inl FileNotFoundError
      | Some n \<Rightarrow>
          (case rmtree (y # ys) n of
             Inl e \<Rightarrow> Inl e
           | Inr n' \<Rightarrow> Inr (Dir (AList.update x n' es))))"

text \<open>
  \<^verbatim>\<open>Path.mkdir(parents=True)\<close> with the default \<^verbatim>\<open>exist_ok=False\<close>: missing ancestors are
  created, and a path that already exists (as a file or as a directory) raises
  \<^verbatim>\<open>FileExistsError\<close>.
\<close>

fun mkchain :: "pystr list \<Rightarrow> node" where
  "mkchain [] = Dir []"
| "mkchain (x # xs) = Dir [(x, mkchain xs)]"

fun mkdir_parents :: "pystr list \<Rightarrow> node \<Rightarrow> error + node" where
  "mkdir_parents [] n = Inl FileExistsError"
| "mkdir_parents (x # xs) (File c) = Inl NotADirectoryError"
| "mkdir_parents (x # xs) (Dir es) =
     (case map_of es x of
        None \<Rightarrow> Inr (Dir (es @ [(x, mkchain xs)]))
      | Some n \<Rightarrow>
          (case mkdir_parents xs n of
             Inl e \<Rightarrow> Inl e
           | Inr n' \<Rightarrow> Inr (Dir (AList.update x n' es))))"

text \<open>
  Opening a path for writing and storing the bytes: the parent must be a directory and the
  path itself must not be one; an existing file is overwritten, a new one is added at the
  end of the parent's listing.
\<close>

fun write_file :: "pystr list \<Rightarrow> string \<Rightarrow> node \<Rightarrow> error + node" where
  "write_file [] c (File old) = Inr (File c)"
| "write_file [] c (Dir es) = Inl IsADirectoryError"
| "write_file (x # xs) c (File old) = Inl NotADirectoryError"
| "write_file (x # xs) c (Dir es) =
     (case map_of es x of
        None \<Rightarrow> (if xs = [] then Inr (Dir (es @ [(x, File c)])) else Inl FileNotFoundError)
      | Some n \<Rightarrow>
          (case write_file xs c n of
             Inl e \<Rightarrow> Inl e
           | Inr n' \<Rightarrow> Inr (Dir (AList.update x n' es))))"

text \<open>
  \<^verbatim>\<open>shutil.copy2(src, dst)\<close>: the bytes of the regular file \<^verbatim>\<open>src\<close> are written to \<^verbatim>\<open>dst\<close>, or
  to \<^verbatim>\<open>dst/basename(src)\<close> when \<^verbatim>\<open>dst\<close> is a directory.
\<close>

definition copy2 :: "pystr list \<Rightarrow> pystr list \<Rightarrow> node \<Rightarrow> error + node" where
  "copy2 src dst fs =
     (case lookup fs src of
        None \<Rightarrow> Inl FileNotFoundError
      | Some (Dir es) \<Rightarrow> Inl IsADirectoryError
      | Some (File c) \<Rightarrow>
          write_file (if is_dir fs dst then dst @ [last src] else dst) c fs)"

section \<open>Formatting\<close>

text \<open>The decimal digits of a number, as \<^verbatim>\<open>str\<close> and the \<^verbatim>\<open>d\<close> format print them.\<close>

definition digit_char :: "nat \<Rightarrow> char" where
  "digit_char d = char_of (48 + d)"

fun dec :: "nat \<Rightarrow> string" where
  "dec n = (if n < 10 then [digit_char n] else dec (n div 10) @ [digit_char (n mod 10)])"

declare dec.simps [simp del]

text \<open>\<^verbatim>\<open>f"{index:04d}"\<close>: the digits, padded with zeros on the left to at least four characters.\<close>

definition fmt04d :: "nat \<Rightarrow> string" where
  "fmt04d n = replicate (4 - length (dec n)) (CHR ''0'') @ dec n"

section \<open>The host: search path and the external tool\<close>

text \<open>
  What the program reads from its host: where the project root lies (for the paths it
  prints and passes on), what \<^verbatim>\<open>shutil.which\<close> answers for an executable name, and what
  running the resize tool does. The tool is a subprocess outside the repository; it is a
  parameter. It is given the argument vector and the bytes of the regular file at its path
  argument (if there is one). Either it cannot be started, or it exits with a status, and
  then the output captured from it decodes as text or does not; it may leave new bytes at
  that path. It touches no other path.
\<close>

datatype tool_exit = CannotStart | Exits int bool

record env =
  project_root :: "pystr list"
  which :: "pystr \<Rightarrow> pystr option"
  run_tool :: "pystr list \<Rightarrow> string option \<Rightarrow> tool_exit \<times> string option"

text \<open>
  \<^verbatim>\<open>subprocess.run(..., capture_output=True, text=True)\<close> returns the exit status, or raises:
  \<^verbatim>\<open>OSError\<close> when the executable cannot be started, \<^verbatim>\<open>UnicodeDecodeError\<close> when the
  captured output cannot be decoded.
\<close>

fun run_result :: "tool_exit \<Rightarrow> error + int" where
  "run_result CannotStart = Inl OSError"
| "run_result (Exits returncode decodes) =
     (if decodes then Inr returncode else Inl UnicodeDecodeError)"

text \<open>\<^verbatim>\<open>str\<close> of an absolute POSIX path given by its components.\<close>

definition path_str :: "pystr list \<Rightarrow> pystr" where
  "path_str comps = (if comps = [] then str ''/'' else concat (map (\<lambda>c. str ''/'' @ c) comps))"


text \<open>
  \<^verbatim>\<open>subprocess.run\<close> of the tool on the file at \<^verbatim>\<open>path\<close>: the exit status or the exception,
  and the tree with the bytes the tool left there.
\<close>

definition subprocess_run ::
  "env \<Rightarrow> pystr list \<Rightarrow> pystr list \<Rightarrow> node \<Rightarrow> (error + int) \<times> node" where
  "subprocess_run e argv path fs =
     (let input = (case lookup fs path of Some (File c) \<Rightarrow> Some c | _ \<Rightarrow> None);
          (exit, output) = run_tool e argv input
      in (run_result exit, case output of
                    None \<Rightarrow> fs
                  | Some c' \<Rightarrow> (case write_file path c' fs of Inl err \<Rightarrow> fs | Inr fs' \<Rightarrow> fs')))"

section \<open>The program\<close>

definition TARGET_SIZE :: "nat \<times> nat" where
  "TARGET_SIZE = (512, 512)"

text \<open>The caption is ASCII, so its UTF-8 encoding, which is what is written, is the text.\<close>

definition BACK_CAPTION :: string where
  "BACK_CAPTION = ''pixback creature, back view, pixel art sprite''"

text \<open>Python's truth value of \<^verbatim>\<open>None\<close> or a string, and \<^verbatim>\<open>a or b\<close>.\<close>

fun truthy :: "pystr option \<Rightarrow> bool" where
  "truthy None = False"
| "truthy (Some s) = (s \<noteq> [])"

definition py_or :: "pystr option \<Rightarrow> pystr option \<Rightarrow> pystr option" where
  "py_or a b = (if truthy a then a else b)"

definition resize_argv :: "pystr \<Rightarrow> pystr \<Rightarrow> nat \<times> nat \<Rightarrow> pystr list" where
  "resize_argv magick p sz =
     (case sz of (w, h) \<Rightarrow>
        [magick, p, str ''-filter'', str ''point'', str ''-resize'',
         str (dec w @ ''x'' @ dec h @ ''!''), p])"

text \<open>Line 23: the preferred executable name, then the legacy one.\<close>

definition find_magick :: "env \<Rightarrow> pystr option" where
  "find_magick e = py_or (which e (str ''magick'')) (which e (str ''convert''))"

text \<open>
  Lines 21 to 32. The function has no handler around \<^verbatim>\<open>subprocess.run\<close>, so an exception
  of the call leaves it.
\<close>

definition resize_nearest ::
  "env \<Rightarrow> pystr list \<Rightarrow> nat \<times> nat \<Rightarrow> node \<Rightarrow> (error + bool) \<times> node" where
  "resize_nearest e path sz fs =
     (let magick = find_magick e
      in if \<not> truthy magick then (Inr False, fs)
         else (case subprocess_run e
                      (resize_argv (the magick) (path_str (project_root e @ path)) sz) path fs of
                 (Inl err, fs') \<Rightarrow> (Inl err, fs')
               | (Inr returncode, fs') \<Rightarrow> (Inr (returncode = 0), fs')))"

text \<open>
  The lines the program prints, each with the values its f-string is filled with;
  \<open>render\<close> gives the text.
\<close>

datatype line =
    ErrorLine "pystr list"
  | WarningLine pystr
  | ProgressLine pystr nat
  | DoneLine nat

definition pokemon_dir :: "pystr list" where
  "pokemon_dir = [str ''graphics'', str ''pokemon'']"

definition backs_dir :: "pystr list" where
  "backs_dir = [str ''backs'']"

definition png_name :: "nat \<Rightarrow> pystr" where
  "png_name index = str (''back'' @ fmt04d index @ ''.png'')"

definition txt_name :: "nat \<Rightarrow> pystr" where
  "txt_name index = str (''back'' @ fmt04d index @ ''.txt'')"

definition back_src :: "pystr \<Rightarrow> pystr list" where
  "back_src subfolder = pokemon_dir @ [subfolder] @ [str ''back.png'']"


text \<open>Lines 47 to 49: the destination is removed if it is a directory, then created.\<close>

definition clean_backs :: "node \<Rightarrow> error option \<times> node" where
  "clean_backs fs =
     (case (if is_dir fs backs_dir then rmtree backs_dir fs else Inr fs) of
        Inl err \<Rightarrow> (Some err, fs)
      | Inr fs1 \<Rightarrow>
          (case mkdir_parents backs_dir fs1 of
             Inl err \<Rightarrow> (Some err, fs1)
           | Inr fs2 \<Rightarrow> (None, fs2)))"

text \<open>
  Lines 52 to 55: the names of the entries of the source directory that are directories,
  sorted. The entries are paths with one parent, so Python's order of paths is the order
  of their names as strings, code point by code point (on a POSIX host, where no case
  folding applies).
\<close>

definition subfolders :: "node \<Rightarrow> pystr list" where
  "subfolders fs = sort (filter (\<lambda>name. is_dir fs (pokemon_dir @ [name])) (iterdir fs pokemon_dir))"

text \<open>
  Lines 59 to 72: the loop, over the folders still to visit, with the tree, the printed
  lines and the two counters as its state. An exception leaves the loop with the state
  reached.
\<close>

type_synonym loop_state = "node \<times> line list \<times> nat \<times> nat"

fun loop :: "env \<Rightarrow> pystr list \<Rightarrow> loop_state \<Rightarrow> error option \<times> loop_state" where
  "loop e [] st = (None, st)"
| "loop e (subfolder # rest) (fs, out, index, copied) =
     (if \<not> is_file fs (back_src subfolder) then loop e rest (fs, out, index, copied)
      else
        (let dest_name = png_name index;
             dest_path = backs_dir @ [dest_name]
         in (case copy2 (back_src subfolder) dest_path fs of
               Inl err \<Rightarrow> (Some err, (fs, out, index, copied))
             | Inr fs1 \<Rightarrow>
                 (case resize_nearest e dest_path TARGET_SIZE fs1 of
                    (Inl err, fs2) \<Rightarrow> (Some err, (fs2, out, index, copied))
                  | (Inr ok, fs2) \<Rightarrow>
                      (let out1 = (if \<not> ok then out @ [WarningLine dest_name] else out);
                           txt_path = backs_dir @ [txt_name index]
                       in (case write_file txt_path BACK_CAPTION fs2 of
                             Inl err \<Rightarrow> (Some err, (fs2, out1, index, copied))
                           | Inr fs3 \<Rightarrow>
                               loop e rest
                                 (fs3, out1 @ [ProgressLine subfolder index],
                                  index + 1, copied + 1)))))))"

datatype outcome = Returned int | Raised error

definition main :: "env \<Rightarrow> node \<Rightarrow> outcome \<times> node \<times> line list" where
  "main e fs =
     (if \<not> is_dir fs pokemon_dir then (Returned 1, fs, [ErrorLine pokemon_dir])
      else
        case clean_backs fs of
          (Some err, fs1) \<Rightarrow> (Raised err, fs1, [])
        | (None, fs2) \<Rightarrow>
            (case loop e (subfolders fs2) (fs2, [], 1, 0) of
               (Some err, (fs3, out, index, copied)) \<Rightarrow> (Raised err, fs3, out)
             | (None, (fs3, out, index, copied)) \<Rightarrow>
                 (Returned 0, fs3, out @ [DoneLine copied])))"

section \<open>What a run is expected to leave\<close>

text \<open>
  The folders that yield output: the sorted immediate subdirectories of the source
  directory with a regular file \<^verbatim>\<open>back.png\<close> at their top level.
\<close>

definition eligible :: "node \<Rightarrow> pystr list" where
  "eligible fs = filter (\<lambda>s. is_file fs (back_src s)) (subfolders fs)"

definition src_bytes :: "node \<Rightarrow> pystr \<Rightarrow> string" where
  "src_bytes fs s = (case lookup fs (back_src s) of Some (File c) \<Rightarrow> c | _ \<Rightarrow> [])"

text \<open>
  The resize of the copy numbered \<open>index\<close> that holds the bytes \<open>c\<close>. \<open>tool_run\<close> is what
  running the tool on it gives, when a tool is found. The resize raises when that run
  raises; it fails when no tool is found or the exit status is not zero; the bytes left
  are the tool's, or \<open>c\<close>.
\<close>

definition tool_run :: "env \<Rightarrow> nat \<Rightarrow> string \<Rightarrow> tool_exit \<times> string option" where
  "tool_run e index c =
     run_tool e
       (resize_argv (the (find_magick e))
          (path_str (project_root e @ backs_dir @ [png_name index])) TARGET_SIZE)
       (Some c)"

definition resize_raises :: "env \<Rightarrow> nat \<Rightarrow> string \<Rightarrow> bool" where
  "resize_raises e index c =
     (truthy (find_magick e) \<and> isl (run_result (fst (tool_run e index c))))"

definition resize_fails :: "env \<Rightarrow> nat \<Rightarrow> string \<Rightarrow> bool" where
  "resize_fails e index c =
     (\<not> truthy (find_magick e) \<or> run_result (fst (tool_run e index c)) \<noteq> Inr 0)"

definition resized_bytes :: "env \<Rightarrow> nat \<Rightarrow> string \<Rightarrow> string" where
  "resized_bytes e index c =
     (if \<not> truthy (find_magick e) then c
      else (case snd (tool_run e index c) of None \<Rightarrow> c | Some c' \<Rightarrow> c'))"

text \<open>No resize of the folders \<open>ss\<close>, numbered from \<open>index\<close>, raises.\<close>

fun resizes_return :: "env \<Rightarrow> node \<Rightarrow> nat \<Rightarrow> pystr list \<Rightarrow> bool" where
  "resizes_return e fs index [] = True"
| "resizes_return e fs index (s # ss) =
     (\<not> resize_raises e index (src_bytes fs s) \<and> resizes_return e fs (Suc index) ss)"

text \<open>The entries and the lines that the folders \<open>ss\<close> add, numbered from \<open>index\<close>.\<close>

fun gen_entries :: "env \<Rightarrow> node \<Rightarrow> nat \<Rightarrow> pystr list \<Rightarrow> (pystr \<times> node) list" where
  "gen_entries e fs index [] = []"
| "gen_entries e fs index (s # ss) =
     (png_name index, File (resized_bytes e index (src_bytes fs s)))
       # (txt_name index, File BACK_CAPTION)
       # gen_entries e fs (Suc index) ss"

fun gen_lines :: "env \<Rightarrow> node \<Rightarrow> nat \<Rightarrow> pystr list \<Rightarrow> line list" where
  "gen_lines e fs index [] = []"
| "gen_lines e fs index (s # ss) =
     (if resize_fails e index (src_bytes fs s) then [WarningLine (png_name index)] else [])
       @ ProgressLine s index # gen_lines e fs (Suc index) ss"

text \<open>The value of a string of decimal digits, to tell formatted numbers apart.\<close>

definition digits_val :: "string \<Rightarrow> nat" where
  "digits_val s = foldl (\<lambda>a c. 10 * a + (of_char c - 48)) 0 s"

text \<open>The listing of a directory node.\<close>

fun listing :: "node \<Rightarrow> (pystr \<times> node) list" where
  "listing (Dir es) = es"
| "listing (File c) = []"

section \<open>Example hosts and trees\<close>

text \<open>
  A host with only the legacy tool name on the search path, whose tool fails on the first
  copy and marks the bytes of every other one; a host with no tool at all; a host whose
  tool cannot be started; hosts whose tool resizes and exits with the status 0 or 1 but
  prints bytes that do not decode.
\<close>

definition host_convert :: env where
  "host_convert =
     \<lparr>project_root = [str ''home'', str ''proj''],
      which = (\<lambda>n. if n = str ''convert'' then Some (str ''/usr/bin/convert'') else None),
      run_tool = (\<lambda>argv input.
        if argv ! 1 = str ''/home/proj/backs/back0001.png'' then (Exits 1 True, None)
        else (Exits 0 True, map_option (\<lambda>c. ''R'' @ c) input))\<rparr>"


definition host_broken :: env where
  "host_broken =
     \<lparr>project_root = [str ''home'', str ''proj''],
      which = (\<lambda>n. if n = str ''magick'' then Some (str ''/opt/magick'') else None),
      run_tool = (\<lambda>argv input. (CannotStart, None))\<rparr>"


text \<open>
  The source tree of the specification's example, with a stray file, a folder that has only
  a nested \<^verbatim>\<open>mega/back.png\<close>, and a destination left by an earlier run.
\<close>

definition pokemon_example :: node where
  "pokemon_example =
     Dir [(str ''ivysaur'', Dir []),
          (str ''charmander'', Dir [(str ''back.png'', File ''C'')]),
          (str ''readme.txt'', File ''hello''),
          (str ''venusaur'', Dir [(str ''mega'', Dir [(str ''back.png'', File ''V'')])]),
          (str ''bulbasaur'',
           Dir [(str ''front.png'', File ''f''), (str ''back.png'', File ''B'')])]"

definition tree_example :: node where
  "tree_example =
     Dir [(str ''backs'', Dir [(str ''old.txt'', File ''x'')]),
          (str ''graphics'', Dir [(str ''pokemon'', pokemon_example)])]"

definition tree_no_source :: node where
  "tree_no_source =
     Dir [(str ''backs'', Dir [(str ''old.txt'', File ''x'')]), (str ''graphics'', Dir [])]"

definition tree_backs_is_file :: node where
  "tree_backs_is_file =
     Dir [(str ''backs'', File ''stale''),
          (str ''graphics'', Dir [(str ''pokemon'', pokemon_example)])]"



section \<open>Literals and formatted numbers are told apart\<close>

lemma str_eq_iff [simp]: "str a = str b \<longleftrightarrow> a = b"
  by (simp add: str_def inj_map_eq_map inj_on_def)

lemma str_eq_Nil [simp]: "str a = [] \<longleftrightarrow> a = []"
  by (simp add: str_def)

lemma str_append: "str (a @ b) = str a @ str b"
  by (simp add: str_def)

lemma digits_val_snoc: "digits_val (s @ [c]) = 10 * digits_val s + (of_char c - 48)"
  by (simp add: digits_val_def)

lemma of_char_digit_char: "d < 10 \<Longrightarrow> of_char (digit_char d) = (48 + d :: nat)"
  by (simp add: digit_char_def)

lemma digits_val_dec: "digits_val (dec n) = n"
proof (induction n rule: dec.induct)
  case (1 n)
  show ?case
  proof (cases "n < 10")
    case True
    then show ?thesis
      by (subst dec.simps) (simp add: digits_val_def of_char_digit_char)
  next
    case False
    with "1" have "digits_val (dec (n div 10)) = n div 10" by simp
    with False show ?thesis
      by (subst dec.simps) (simp add: digits_val_snoc of_char_digit_char)
  qed
qed

lemma digits_val_zeros: "digits_val (replicate k (CHR ''0'') @ s) = digits_val s"
proof -
  have "foldl (\<lambda>a c. 10 * a + (of_char c - 48)) (0::nat) (replicate k (CHR ''0'')) = 0"
    by (induction k) simp_all
  then show ?thesis by (simp add: digits_val_def)
qed

lemma digits_val_fmt04d: "digits_val (fmt04d n) = n"
  by (simp add: fmt04d_def digits_val_zeros digits_val_dec)

lemma fmt04d_inj: "fmt04d i = fmt04d j \<longleftrightarrow> i = j"
  by (metis digits_val_fmt04d)

lemma png_name_inj [simp]: "png_name i = png_name j \<longleftrightarrow> i = j"
  by (simp add: png_name_def fmt04d_inj)

lemma txt_name_inj [simp]: "txt_name i = txt_name j \<longleftrightarrow> i = j"
  by (simp add: txt_name_def fmt04d_inj)

lemma png_name_neq_txt_name [simp]: "png_name i \<noteq> txt_name j" "txt_name j \<noteq> png_name i"
proof -
  have "''back'' @ fmt04d i @ ''.png'' \<noteq> ''back'' @ fmt04d j @ ''.txt''"
  proof
    assume "''back'' @ fmt04d i @ ''.png'' = ''back'' @ fmt04d j @ ''.txt''"
    then have "last (''back'' @ fmt04d i @ ''.png'') = last (''back'' @ fmt04d j @ ''.txt'')"
      by (rule arg_cong)
    then show False by simp
  qed
  then show "png_name i \<noteq> txt_name j" "txt_name j \<noteq> png_name i"
    by (simp_all add: png_name_def txt_name_def)
qed

subsection \<open>Association lists\<close>

lemma update_absent: "map_of al k = None \<Longrightarrow> AList.update k v al = al @ [(k, v)]"
  by (induction al) (auto split: if_splits)

lemma update_snoc_same:
  "map_of al k = None \<Longrightarrow> AList.update k v (al @ [(k, v0)]) = al @ [(k, v)]"
  by (induction al) (auto split: if_splits)

lemma map_of_snoc:
  "map_of (al @ [(k, v)]) k' =
     (case map_of al k' of None \<Rightarrow> (if k' = k then Some v else None) | Some x \<Rightarrow> Some x)"
  by (simp add: map_add_def split: option.splits)

lemma map_of_snoc_other: "x \<noteq> k \<Longrightarrow> ([k \<mapsto> v] ++ m) x = m x"
  by (simp add: map_add_def split: option.splits)

lemma map_of_update_other: "k' \<noteq> k \<Longrightarrow> map_of (AList.update k v al) k' = map_of al k'"
  by (simp add: update_conv')

lemma map_of_update_same: "map_of (AList.update k v al) k = Some v"
  by (simp add: update_conv')

lemma map_of_delete_same: "map_of (AList.delete k es) k = None"
  by (simp add: delete_conv')

subsection \<open>Writing below the destination\<close>

lemma lookup_update_backs [simp]:
  "x \<noteq> str ''backs''
    \<Longrightarrow> lookup (Dir (AList.update (str ''backs'') v es)) (x # q) = lookup (Dir es) (x # q)"
  by (simp add: map_of_update_other)

lemma back_src_lookup_update [simp]:
  "lookup (Dir (AList.update (str ''backs'') v es)) (back_src s) = lookup (Dir es) (back_src s)"
  by (simp add: back_src_def pokemon_dir_def map_of_update_other)

lemma is_file_back_src_update [simp]:
  "is_file (Dir (AList.update (str ''backs'') v es)) (back_src s) = is_file (Dir es) (back_src s)"
  by (simp add: is_file_def)

lemma src_bytes_update [simp]:
  "src_bytes (Dir (AList.update (str ''backs'') v es)) s = src_bytes (Dir es) s"
  by (simp add: src_bytes_def)

lemma gen_entries_update [simp]:
  "gen_entries e (Dir (AList.update (str ''backs'') v es)) i ss = gen_entries e (Dir es) i ss"
  by (induction ss arbitrary: i) simp_all

lemma gen_lines_update [simp]:
  "gen_lines e (Dir (AList.update (str ''backs'') v es)) i ss = gen_lines e (Dir es) i ss"
  by (induction ss arbitrary: i) simp_all

lemma resizes_return_update [simp]:
  "resizes_return e (Dir (AList.update (str ''backs'') v es)) i ss = resizes_return e (Dir es) i ss"
  by (induction ss arbitrary: i) simp_all

lemma write_file_backs_new:
  assumes "map_of es (str ''backs'') = Some (Dir bs)" and "map_of bs nm = None"
  shows "write_file (backs_dir @ [nm]) c (Dir es)
           = Inr (Dir (AList.update (str ''backs'') (Dir (bs @ [(nm, File c)])) es))"
  using assms by (simp add: backs_dir_def)

lemma write_file_backs_old:
  assumes "map_of es (str ''backs'') = Some (Dir bs)" and "map_of bs nm = Some (File c0)"
  shows "write_file (backs_dir @ [nm]) c (Dir es)
           = Inr (Dir (AList.update (str ''backs'') (Dir (AList.update nm (File c) bs)) es))"
  using assms by (simp add: backs_dir_def)

lemma copy2_backs:
  assumes "map_of es (str ''backs'') = Some (Dir bs)" and "map_of bs nm = None"
    and "is_file (Dir es) (back_src s)"
  shows "copy2 (back_src s) (backs_dir @ [nm]) (Dir es)
           = Inr (Dir (AList.update (str ''backs'')
                    (Dir (bs @ [(nm, File (src_bytes (Dir es) s))])) es))"
proof -
  from assms(3) obtain c where c: "lookup (Dir es) (back_src s) = Some (File c)"
    by (auto simp: is_file_def split: option.splits node.splits)
  have nd: "\<not> is_dir (Dir es) (backs_dir @ [nm])"
    using assms(1,2) by (simp add: is_dir_def backs_dir_def)
  show ?thesis
    using c nd write_file_backs_new [OF assms(1,2)]
    by (simp add: copy2_def src_bytes_def)
qed

lemma subprocess_run_backs:
  assumes "map_of es (str ''backs'') = Some (Dir (bs @ [(png_name i, File c)]))"
    and "map_of bs (png_name i) = None"
  shows "subprocess_run e argv (backs_dir @ [png_name i]) (Dir es)
           = (run_result (fst (run_tool e argv (Some c))),
              Dir (AList.update (str ''backs'')
                     (Dir (bs @ [(png_name i,
                                  File (case snd (run_tool e argv (Some c)) of
                                          None \<Rightarrow> c | Some c' \<Rightarrow> c'))])) es))"
proof -
  have mo: "map_of (bs @ [(png_name i, File c)]) (png_name i) = Some (File c)"
    using assms(2) by (simp add: map_add_def)
  have lk: "lookup (Dir es) (backs_dir @ [png_name i]) = Some (File c)"
    using assms(1) mo by (simp add: backs_dir_def)
  obtain res outp where r: "run_tool e argv (Some c) = (res, outp)"
    by (cases "run_tool e argv (Some c)")
  have same: "AList.update (str ''backs'') (Dir (bs @ [(png_name i, File c)])) es = es"
    using assms(1) by (rule update_triv)
  show ?thesis
  proof (cases outp)
    case None
    with r lk same show ?thesis
      by (simp add: subprocess_run_def)
  next
    case (Some c')
    have "write_file (backs_dir @ [png_name i]) c' (Dir es)
            = Inr (Dir (AList.update (str ''backs'')
                   (Dir (AList.update (png_name i) (File c') (bs @ [(png_name i, File c)]))) es))"
      using assms(1) mo by (rule write_file_backs_old)
    with Some r lk assms(2) show ?thesis
      by (simp add: subprocess_run_def update_snoc_same)
  qed
qed

lemma resize_nearest_backs:
  assumes "map_of es (str ''backs'') = Some (Dir (bs @ [(png_name i, File c)]))"
    and "map_of bs (png_name i) = None"
  shows "resize_nearest e (backs_dir @ [png_name i]) TARGET_SIZE (Dir es)
           = (if resize_raises e i c then Inl (projl (run_result (fst (tool_run e i c))))
              else Inr (\<not> resize_fails e i c),
              Dir (AList.update (str ''backs'')
                     (Dir (bs @ [(png_name i, File (resized_bytes e i c))])) es))"
proof (cases "truthy (find_magick e)")
  case False
  have "AList.update (str ''backs'') (Dir (bs @ [(png_name i, File c)])) es = es"
    using assms(1) by (rule update_triv)
  with False show ?thesis
    by (simp add: resize_nearest_def resize_raises_def resize_fails_def resized_bytes_def)
next
  case True
  let ?argv = "resize_argv (the (find_magick e))
                 (path_str (project_root e @ backs_dir @ [png_name i])) TARGET_SIZE"
  note sr = subprocess_run_backs [OF assms, of e ?argv]
  show ?thesis
  proof (cases "run_result (fst (run_tool e ?argv (Some c)))")
    case (Inl err)
    with True sr show ?thesis
      by (simp add: resize_nearest_def resize_raises_def resize_fails_def resized_bytes_def
          tool_run_def)
  next
    case (Inr rc)
    with True sr show ?thesis
      by (simp add: resize_nearest_def resize_raises_def resize_fails_def resized_bytes_def
          tool_run_def)
  qed
qed

section \<open>The loop in closed form\<close>

lemma loop_step:
  assumes "map_of es (str ''backs'') = Some (Dir bs)"
    and "map_of bs (png_name index) = None" and "map_of bs (txt_name index) = None"
    and "is_file (Dir es) (back_src s)"
  shows "loop e (s # names) (Dir es, out, index, copied) =
           (if resize_raises e index (src_bytes (Dir es) s)
            then (Some (projl (run_result (fst (tool_run e index (src_bytes (Dir es) s))))),
                  Dir (AList.update (str ''backs'')
                         (Dir (bs @ [(png_name index,
                                      File (resized_bytes e index (src_bytes (Dir es) s)))])) es),
                  out, index, copied)
            else loop e names
                  (Dir (AList.update (str ''backs'')
                          (Dir (bs @ [(png_name index,
                                       File (resized_bytes e index (src_bytes (Dir es) s))),
                                      (txt_name index, File BACK_CAPTION)])) es),
                   (if resize_fails e index (src_bytes (Dir es) s)
                    then out @ [WarningLine (png_name index)] else out)
                     @ [ProgressLine s index],
                   Suc index, Suc copied))"
proof -
  let ?c = "src_bytes (Dir es) s"
  let ?bs1 = "bs @ [(png_name index, File ?c)]"
  let ?es1 = "AList.update (str ''backs'') (Dir ?bs1) es"
  let ?bs2 = "bs @ [(png_name index, File (resized_bytes e index ?c))]"
  let ?es2 = "AList.update (str ''backs'') (Dir ?bs2) es"
  let ?bs3 = "?bs2 @ [(txt_name index, File BACK_CAPTION)]"
  let ?es3 = "AList.update (str ''backs'') (Dir ?bs3) es"
  have cp: "copy2 (back_src s) (backs_dir @ [png_name index]) (Dir es) = Inr (Dir ?es1)"
    using assms(1,2,4) by (rule copy2_backs)
  have "resize_nearest e (backs_dir @ [png_name index]) TARGET_SIZE (Dir ?es1)
          = (if resize_raises e index ?c then Inl (projl (run_result (fst (tool_run e index ?c))))
             else Inr (\<not> resize_fails e index ?c),
             Dir (AList.update (str ''backs'') (Dir ?bs2) ?es1))"
    by (rule resize_nearest_backs) (simp_all add: map_of_update_same assms(2))
  then have rs: "resize_nearest e (backs_dir @ [png_name index]) TARGET_SIZE (Dir ?es1)
          = (if resize_raises e index ?c then Inl (projl (run_result (fst (tool_run e index ?c))))
             else Inr (\<not> resize_fails e index ?c), Dir ?es2)"
    by simp
  have "write_file (backs_dir @ [txt_name index]) BACK_CAPTION (Dir ?es2)
          = Inr (Dir (AList.update (str ''backs'') (Dir ?bs3) ?es2))"
    by (rule write_file_backs_new) (simp_all add: map_of_update_same map_of_snoc assms(3))
  then have wr: "write_file (backs_dir @ [txt_name index]) BACK_CAPTION (Dir ?es2) = Inr (Dir ?es3)"
    by simp
  show ?thesis
    using assms(4) cp rs wr by (simp add: Let_def)
qed



subsection \<open>The whole run\<close>

lemma is_dir_root: "is_dir fs (x # q) \<Longrightarrow> \<exists>es. fs = Dir es"
  by (cases fs) (simp_all add: is_dir_def)

lemma back_src_lookup_cong:
  "map_of es' (str ''graphics'') = map_of es (str ''graphics'')
    \<Longrightarrow> lookup (Dir es') (back_src s) = lookup (Dir es) (back_src s)"
  by (simp add: back_src_def pokemon_dir_def)

lemma is_file_back_src_cong:
  "map_of es' (str ''graphics'') = map_of es (str ''graphics'')
    \<Longrightarrow> is_file (Dir es') (back_src s) = is_file (Dir es) (back_src s)"
  by (simp add: is_file_def back_src_lookup_cong [of es' es])

lemma src_bytes_cong:
  "map_of es' (str ''graphics'') = map_of es (str ''graphics'')
    \<Longrightarrow> src_bytes (Dir es') s = src_bytes (Dir es) s"
  by (simp add: src_bytes_def back_src_lookup_cong [of es' es])

lemma gen_entries_cong:
  "map_of es' (str ''graphics'') = map_of es (str ''graphics'')
    \<Longrightarrow> gen_entries e (Dir es') i ss = gen_entries e (Dir es) i ss"
  by (induction ss arbitrary: i) (simp_all add: src_bytes_cong [of es' es])

lemma gen_lines_cong:
  "map_of es' (str ''graphics'') = map_of es (str ''graphics'')
    \<Longrightarrow> gen_lines e (Dir es') i ss = gen_lines e (Dir es) i ss"
  by (induction ss arbitrary: i) (simp_all add: src_bytes_cong [of es' es])


lemma subfolders_cong:
  "map_of es' (str ''graphics'') = map_of es (str ''graphics'')
    \<Longrightarrow> subfolders (Dir es') = subfolders (Dir es)"
  by (simp add: subfolders_def iterdir_def is_dir_def pokemon_dir_def)

lemma eligible_cong:
  "map_of es' (str ''graphics'') = map_of es (str ''graphics'')
    \<Longrightarrow> eligible (Dir es') = eligible (Dir es)"
  by (simp add: eligible_def subfolders_cong [of es' es] is_file_back_src_cong [of es' es])

lemma mkdir_backs_absent:
  "map_of es (str ''backs'') = None
    \<Longrightarrow> mkdir_parents backs_dir (Dir es) = Inr (Dir (es @ [(str ''backs'', Dir [])]))"
  by (simp add: backs_dir_def)

lemma rmtree_backs_dir:
  "map_of es (str ''backs'') = Some (Dir ds)
    \<Longrightarrow> rmtree backs_dir (Dir es) = Inr (Dir (AList.delete (str ''backs'') es))"
  by (simp add: backs_dir_def)

lemma clean_backs_ok:
  assumes "\<not> is_file (Dir es) backs_dir"
  shows "clean_backs (Dir es)
           = (None, Dir (AList.delete (str ''backs'') es @ [(str ''backs'', Dir [])]))"
proof (cases "map_of es (str ''backs'')")
  case None
  then have "str ''backs'' \<notin> fst ` set es" by (simp add: map_of_eq_None_iff)
  then have d: "AList.delete (str ''backs'') es = es" by simp
  have nd: "\<not> is_dir (Dir es) backs_dir"
    using None by (simp add: is_dir_def backs_dir_def)
  have "clean_backs (Dir es) = (None, Dir (es @ [(str ''backs'', Dir [])]))"
    unfolding clean_backs_def using nd mkdir_backs_absent [OF None] by simp
  then show ?thesis unfolding d .
next
  case (Some n)
  with assms obtain ds where n: "n = Dir ds"
    by (cases n) (simp_all add: is_file_def backs_dir_def)
  have m: "map_of es (str ''backs'') = Some (Dir ds)" using Some n by simp
  have isd: "is_dir (Dir es) backs_dir"
    using m by (simp add: is_dir_def backs_dir_def)
  show ?thesis
    unfolding clean_backs_def
    using isd rmtree_backs_dir [OF m] mkdir_backs_absent [OF map_of_delete_same]
    by simp
qed

lemma clean_backs_file:
  assumes "is_file fs backs_dir"
  shows "clean_backs fs = (Some FileExistsError, fs)"
proof -
  from assms obtain es c where "fs = Dir es" "map_of es (str ''backs'') = Some (File c)"
    by (cases fs) (auto simp: is_file_def backs_dir_def split: option.splits node.splits)
  then show ?thesis
    by (simp add: clean_backs_def is_dir_def backs_dir_def)
qed



subsection \<open>Nothing outside the destination is written\<close>

lemma write_file_frame:
  assumes "write_file (str ''backs'' # p) c fs = Inr fs'" and "x \<noteq> str ''backs''"
  shows "lookup fs' (x # q) = lookup fs (x # q)"
proof (cases fs)
  case (File old)
  with assms show ?thesis by simp
next
  case (Dir es)
  show ?thesis
  proof (cases "map_of es (str ''backs'')")
    case None
    with assms Dir have "fs' = Dir (es @ [(str ''backs'', File c)])"
      by (simp split: if_splits)
    with Dir assms(2) show ?thesis by (simp add: map_of_snoc_other)
  next
    case (Some n)
    with assms Dir obtain n' where "fs' = Dir (AList.update (str ''backs'') n' es)"
      by (auto split: sum.splits)
    with Dir assms(2) show ?thesis by (simp add: map_of_update_other)
  qed
qed

lemma copy2_frame:
  assumes "copy2 src (str ''backs'' # p) fs = Inr fs'" and "x \<noteq> str ''backs''"
  shows "lookup fs' (x # q) = lookup fs (x # q)"
proof -
  from assms(1) obtain c p' where "write_file (str ''backs'' # p') c fs = Inr fs'"
    by (auto simp: copy2_def split: option.splits node.splits if_splits)
  then show ?thesis using assms(2) by (rule write_file_frame)
qed

lemma subprocess_run_frame:
  assumes "x \<noteq> str ''backs''"
  shows "lookup (snd (subprocess_run e argv (str ''backs'' # p) fs)) (x # q) = lookup fs (x # q)"
proof -
  obtain ex outp where r: "run_tool e argv
      (case lookup fs (str ''backs'' # p) of Some (File c) \<Rightarrow> Some c | _ \<Rightarrow> None) = (ex, outp)"
    by (cases "run_tool e argv
      (case lookup fs (str ''backs'' # p) of Some (File c) \<Rightarrow> Some c | _ \<Rightarrow> None)")
  show ?thesis
  proof (cases outp)
    case None
    with r show ?thesis by (simp add: subprocess_run_def)
  next
    case (Some c')
    show ?thesis
    proof (cases "write_file (str ''backs'' # p) c' fs")
      case (Inl err)
      with r Some show ?thesis by (simp add: subprocess_run_def)
    next
      case (Inr fs')
      with r Some write_file_frame [OF Inr assms] show ?thesis
        by (simp add: subprocess_run_def)
    qed
  qed
qed

lemma resize_nearest_frame:
  assumes "x \<noteq> str ''backs''"
  shows "lookup (snd (resize_nearest e (str ''backs'' # p) sz fs)) (x # q) = lookup fs (x # q)"
proof (cases "truthy (find_magick e)")
  case False
  then show ?thesis by (simp add: resize_nearest_def)
next
  case True
  let ?r = "subprocess_run e
              (resize_argv (the (find_magick e)) (path_str (project_root e @ str ''backs'' # p)) sz)
              (str ''backs'' # p) fs"
  have "snd (resize_nearest e (str ''backs'' # p) sz fs) = snd ?r"
    using True by (cases ?r; cases "fst ?r") (simp_all add: resize_nearest_def)
  then show ?thesis using subprocess_run_frame [OF assms] by simp
qed

text \<open>One pass of the loop body over a folder that has its \<^verbatim>\<open>back.png\<close>.\<close>

lemma loop_body_cases:
  assumes "is_file fs (back_src s)"
  obtains (copy_raises) err where
      "copy2 (back_src s) (backs_dir @ [png_name index]) fs = Inl err"
      "loop e (s # names) (fs, out, index, copied) = (Some err, fs, out, index, copied)"
  | (resize_raises) fs1 fs2 err where
      "copy2 (back_src s) (backs_dir @ [png_name index]) fs = Inr fs1"
      "resize_nearest e (backs_dir @ [png_name index]) TARGET_SIZE fs1 = (Inl err, fs2)"
      "loop e (s # names) (fs, out, index, copied) = (Some err, fs2, out, index, copied)"
  | (write_raises) fs1 fs2 ok err where
      "copy2 (back_src s) (backs_dir @ [png_name index]) fs = Inr fs1"
      "resize_nearest e (backs_dir @ [png_name index]) TARGET_SIZE fs1 = (Inr ok, fs2)"
      "write_file (backs_dir @ [txt_name index]) BACK_CAPTION fs2 = Inl err"
      "loop e (s # names) (fs, out, index, copied)
         = (Some err, fs2, (if \<not> ok then out @ [WarningLine (png_name index)] else out),
            index, copied)"
  | (continues) fs1 fs2 ok fs3 where
      "copy2 (back_src s) (backs_dir @ [png_name index]) fs = Inr fs1"
      "resize_nearest e (backs_dir @ [png_name index]) TARGET_SIZE fs1 = (Inr ok, fs2)"
      "write_file (backs_dir @ [txt_name index]) BACK_CAPTION fs2 = Inr fs3"
      "loop e (s # names) (fs, out, index, copied)
         = loop e names
             (fs3, (if \<not> ok then out @ [WarningLine (png_name index)] else out)
                     @ [ProgressLine s index], Suc index, Suc copied)"
proof (cases "copy2 (back_src s) (backs_dir @ [png_name index]) fs")
  case (Inl err)
  with assms copy_raises show ?thesis by (simp add: Let_def)
next
  case cp: (Inr fs1)
  obtain res fs2 where rs: "resize_nearest e (backs_dir @ [png_name index]) TARGET_SIZE fs1 = (res, fs2)"
    by (cases "resize_nearest e (backs_dir @ [png_name index]) TARGET_SIZE fs1")
  show ?thesis
  proof (cases res)
    case (Inl err)
    with assms cp rs resize_raises show ?thesis by (simp add: Let_def)
  next
    case ok: (Inr ok)
    show ?thesis
    proof (cases "write_file (backs_dir @ [txt_name index]) BACK_CAPTION fs2")
      case (Inl err)
      with assms cp rs ok write_raises [of fs1 ok fs2 err] show ?thesis by (simp add: Let_def)
    next
      case (Inr fs3)
      with assms cp rs ok continues [of fs1 ok fs2 fs3] show ?thesis by (simp add: Let_def)
    qed
  qed
qed

lemma loop_frame:
  assumes "loop e names (fs, out, index, copied) = (r, fs', out', index', copied')"
    and "x \<noteq> str ''backs''"
  shows "lookup fs' (x # q) = lookup fs (x # q)"
  using assms(1)
proof (induction names arbitrary: fs out index copied)
  case Nil
  then show ?case by simp
next
  case (Cons s names)
  show ?case
  proof (cases "is_file fs (back_src s)")
    case False
    with Cons show ?thesis by simp
  next
    case True
    have f1: "lookup fs1 (x # q) = lookup fs (x # q)"
      if "copy2 (back_src s) (backs_dir @ [png_name index]) fs = Inr fs1" for fs1
      using that assms(2) by (simp add: backs_dir_def copy2_frame)
    have f2: "lookup fs2 (x # q) = lookup fs1 (x # q)"
      if "resize_nearest e (backs_dir @ [png_name index]) TARGET_SIZE fs1 = (res, fs2)"
      for fs1 fs2 res
      using resize_nearest_frame [OF assms(2), of e "[png_name index]" TARGET_SIZE fs1 q] that
      by (simp add: backs_dir_def)
    have f3: "lookup fs3 (x # q) = lookup fs2 (x # q)"
      if "write_file (backs_dir @ [txt_name index]) BACK_CAPTION fs2 = Inr fs3" for fs2 fs3
      using that assms(2) by (simp add: backs_dir_def write_file_frame)
    from True show ?thesis
    proof (cases rule: loop_body_cases [of fs s index e names out copied])
      case (copy_raises err)
      with Cons.prems show ?thesis by simp
    next
      case (resize_raises fs1 fs2 err)
      with Cons.prems f1 [OF resize_raises(1)] f2 [OF resize_raises(2)] show ?thesis by simp
    next
      case (write_raises fs1 fs2 ok err)
      with Cons.prems f1 [OF write_raises(1)] f2 [OF write_raises(2)] show ?thesis by simp
    next
      case (continues fs1 fs2 ok fs3)
      with Cons.prems have "loop e names
             (fs3, (if \<not> ok then out @ [WarningLine (png_name index)] else out)
                     @ [ProgressLine s index], Suc index, Suc copied)
             = (r, fs', out', index', copied')"
        by simp
      then have "lookup fs' (x # q) = lookup fs3 (x # q)" by (rule Cons.IH)
      with f1 [OF continues(1)] f2 [OF continues(2)] f3 [OF continues(3)] show ?thesis by simp
    qed
  qed
qed

lemma clean_backs_frame:
  assumes "x \<noteq> str ''backs''"
  shows "lookup (snd (clean_backs fs)) (x # q) = lookup fs (x # q)"
proof (cases fs)
  case (File c)
  then show ?thesis by (simp add: clean_backs_def is_dir_def backs_dir_def)
next
  case (Dir es)
  show ?thesis
  proof (cases "is_file fs backs_dir")
    case True
    then show ?thesis by (simp add: clean_backs_file)
  next
    case False
    with Dir assms show ?thesis
      by (simp add: clean_backs_ok map_of_snoc_other)
  qed
qed

lemma main_frame:
  assumes "x \<noteq> str ''backs''"
  shows "lookup (fst (snd (main e fs))) (x # q) = lookup fs (x # q)"
proof (cases "is_dir fs pokemon_dir")
  case False
  then show ?thesis by (simp add: main_def)
next
  case True
  obtain r fs1 where c: "clean_backs fs = (r, fs1)" by (cases "clean_backs fs")
  have f1: "lookup fs1 (x # q) = lookup fs (x # q)"
    using clean_backs_frame [OF assms, of fs q] c by simp
  obtain r2 fs3 out index copied
    where l: "loop e (subfolders fs1) (fs1, [], 1, 0) = (r2, fs3, out, index, copied)"
    by (cases "loop e (subfolders fs1) (fs1, [], 1, 0)") auto
  have f3: "lookup fs3 (x # q) = lookup fs1 (x # q)"
    using l assms by (rule loop_frame)
  from True c l f1 f3 show ?thesis
    by (cases r; cases r2) (simp_all add: main_def)
qed

subsection \<open>The loop, iteration by iteration\<close>

lemma loop_append:
  "loop e (xs @ ys) st =
     (case loop e xs st of
        (None, st') \<Rightarrow> loop e ys st'
      | (Some err, st') \<Rightarrow> (Some err, st'))"
proof (induction xs arbitrary: st)
  case Nil
  then show ?case by simp
next
  case (Cons s xs)
  obtain fs out index copied where st: "st = (fs, out, index, copied)"
    by (cases st) auto
  show ?case
  proof (cases "is_file fs (back_src s)")
    case False
    then show ?thesis unfolding st by (simp add: Cons.IH)
  next
    case True
    then show ?thesis
    proof (cases rule: loop_body_cases [of fs s index e "xs @ ys" out copied])
      case (copy_raises err)
      with True show ?thesis unfolding st by (simp add: Let_def)
    next
      case (resize_raises fs1 fs2 err)
      with True show ?thesis unfolding st by (simp add: Let_def)
    next
      case (write_raises fs1 fs2 ok err)
      with True show ?thesis unfolding st by (simp add: Let_def)
    next
      case (continues fs1 fs2 ok fs3)
      with True show ?thesis unfolding st by (simp add: Let_def Cons.IH)
    qed
  qed
qed


lemma loop_skip:
  assumes "\<not> is_file fs (back_src s)"
  shows "loop e (xs @ s # ys) (fs, out, index, copied) = loop e (xs @ ys) (fs, out, index, copied)"
proof -
  obtain r fs' out' index' copied'
    where l: "loop e xs (fs, out, index, copied) = (r, fs', out', index', copied')"
    by (cases "loop e xs (fs, out, index, copied)") auto
  have "str ''graphics'' \<noteq> str ''backs''" by simp
  from loop_frame [OF l this, of "[str ''pokemon'', s, str ''back.png'']"]
  have "lookup fs' (back_src s) = lookup fs (back_src s)"
    by (simp add: back_src_def pokemon_dir_def)
  with assms have "\<not> is_file fs' (back_src s)"
    by (simp add: is_file_def)
  then have "loop e (s # ys) (fs', out', index', copied') = loop e ys (fs', out', index', copied')"
    by simp
  with l show ?thesis
    by (simp add: loop_append [of e xs] split: option.splits)
qed

subsection \<open>The entries and the lines of a run\<close>






lemma map_of_gen_entries:
  assumes "n < length ss"
  shows "map_of (gen_entries e fs k ss) (png_name (k + n))
           = Some (File (resized_bytes e (k + n) (src_bytes fs (ss ! n))))
         \<and> map_of (gen_entries e fs k ss) (txt_name (k + n)) = Some (File BACK_CAPTION)"
  using assms
proof (induction ss arbitrary: k n)
  case Nil
  then show ?case by simp
next
  case (Cons s ss)
  show ?case
  proof (cases n)
    case 0
    then show ?thesis by simp
  next
    case (Suc m)
    with Cons.prems have "m < length ss" by simp
    from Cons.IH [OF this, of "Suc k"] Suc show ?thesis by simp
  qed
qed


lemma progress_in_gen_lines:
  "ProgressLine s i \<in> set (gen_lines e fs k ss) \<longleftrightarrow> (\<exists>n<length ss. ss ! n = s \<and> i = k + n)"
proof (induction ss arbitrary: k)
  case Nil
  then show ?case by simp
next
  case (Cons a ss)
  have "(\<exists>n<length (a # ss). (a # ss) ! n = s \<and> i = k + n)
          \<longleftrightarrow> (a = s \<and> i = k) \<or> (\<exists>n<length ss. ss ! n = s \<and> i = Suc k + n)"
    by (auto simp: less_Suc_eq_0_disj)
  with Cons.IH [of "Suc k"] show ?case by auto
qed




lemma lookup_backs_final:
  "lookup (Dir (AList.delete (str ''backs'') es @ [(str ''backs'', n)])) (backs_dir @ q)
     = lookup n q"
  by (simp add: backs_dir_def map_add_def map_of_delete_same)

subsection \<open>The folders that yield output\<close>

lemma lookup_append:
  "lookup fs (p @ q) = (case lookup fs p of None \<Rightarrow> None | Some n \<Rightarrow> lookup n q)"
  by (induction fs p rule: lookup.induct) (simp_all split: option.splits)

lemma set_subfolders: "set (subfolders fs) = {s. is_dir fs (pokemon_dir @ [s])}"
proof -
  have "s \<in> set (iterdir fs pokemon_dir)" if "is_dir fs (pokemon_dir @ [s])" for s
  proof -
    from that have "lookup fs (pokemon_dir @ [s]) \<noteq> None"
      by (auto simp: is_dir_def split: option.splits)
    then obtain a where a: "lookup fs pokemon_dir = Some a" and b: "lookup a [s] \<noteq> None"
      by (auto simp: lookup_append split: option.splits)
    from b obtain es where "a = Dir es" "map_of es s \<noteq> None"
      by (cases a) (auto split: option.splits)
    with a have "lookup fs pokemon_dir = Some (Dir es)" "map_of es s \<noteq> None"
      by simp_all
    then show ?thesis
      by (auto simp: iterdir_def dest: map_of_SomeD intro: rev_image_eqI)
  qed
  then show ?thesis by (auto simp: subfolders_def)
qed

lemma set_eligible:
  "set (eligible fs)
     = {s. is_dir fs (pokemon_dir @ [s]) \<and> is_file fs (pokemon_dir @ [s, str ''back.png''])}"
  by (auto simp: eligible_def set_subfolders back_src_def)




subsection \<open>Runs that an exception ends\<close>

text \<open>
  Whatever the tool does, the loop has handled some first \<open>m\<close> of the folders that yield
  output in full when it ends; an exception of the resize leaves the copy it was given
  behind, and nothing else.
\<close>

lemma loop_partial:
  assumes "map_of es (str ''backs'') = Some (Dir bs)"
    and "\<forall>j\<ge>index. map_of bs (png_name j) = None \<and> map_of bs (txt_name j) = None"
  shows "\<exists>m extra r.
           m \<le> length (filter (\<lambda>s. is_file (Dir es) (back_src s)) names)
           \<and> (extra = [] \<or> (\<exists>c. extra = [(png_name (index + m), File c)]))
           \<and> (r = None \<longleftrightarrow> extra = [])
           \<and> loop e names (Dir es, out, index, copied)
               = (r,
                  Dir (AList.update (str ''backs'')
                         (Dir (bs @ gen_entries e (Dir es) index
                                 (take m (filter (\<lambda>s. is_file (Dir es) (back_src s)) names))
                               @ extra)) es),
                  out @ gen_lines e (Dir es) index
                          (take m (filter (\<lambda>s. is_file (Dir es) (back_src s)) names)),
                  index + m, copied + m)"
  using assms
proof (induction names arbitrary: es bs out index copied)
  case Nil
  have "loop e [] (Dir es, out, index, copied)
          = (None, Dir (AList.update (str ''backs'') (Dir (bs @ [] @ [])) es), out @ [],
             index + 0, copied + 0)"
    using Nil.prems(1) by (simp add: update_triv)
  then show ?case
    by (intro exI [of _ 0] exI [of _ "[]"] exI [of _ None]) simp
next
  case (Cons s names)
  show ?case
  proof (cases "is_file (Dir es) (back_src s)")
    case False
    with Cons.IH [OF Cons.prems, of out copied] show ?thesis by simp
  next
    case True
    let ?el = "filter (\<lambda>s. is_file (Dir es) (back_src s)) names"
    let ?c = "src_bytes (Dir es) s"
    let ?bs3 = "bs @ [(png_name index, File (resized_bytes e index ?c)),
                      (txt_name index, File BACK_CAPTION)]"
    let ?es3 = "AList.update (str ''backs'') (Dir ?bs3) es"
    let ?out1 = "(if resize_fails e index ?c then out @ [WarningLine (png_name index)] else out)
                   @ [ProgressLine s index]"
    have fresh_png: "map_of bs (png_name index) = None"
      and fresh_txt: "map_of bs (txt_name index) = None"
      using Cons.prems(2) by auto
    note step = loop_step [OF Cons.prems(1) fresh_png fresh_txt True, of e names out copied]
    show ?thesis
    proof (cases "resize_raises e index ?c")
      case True
      with step have "loop e (s # names) (Dir es, out, index, copied)
          = (Some (projl (run_result (fst (tool_run e index ?c)))),
             Dir (AList.update (str ''backs'')
                    (Dir (bs @ gen_entries e (Dir es) index (take 0 (s # ?el))
                             @ [(png_name (index + 0), File (resized_bytes e index ?c))])) es),
             out @ gen_lines e (Dir es) index (take 0 (s # ?el)), index + 0, copied + 0)"
        by simp
      then show ?thesis
        using \<open>is_file (Dir es) (back_src s)\<close>
        by (intro exI [of _ 0] exI [of _ "[(png_name (index + 0), File (resized_bytes e index ?c))]"]
            exI [of _ "Some (projl (run_result (fst (tool_run e index ?c))))"]) simp
    next
      case False
      have m3: "map_of ?es3 (str ''backs'') = Some (Dir ?bs3)"
        by (simp add: map_of_update_same)
      have fresh3: "\<forall>j\<ge>Suc index. map_of ?bs3 (png_name j) = None \<and> map_of ?bs3 (txt_name j) = None"
        using Cons.prems(2) by (auto simp: map_add_def split: option.splits)
      from Cons.IH [OF m3 fresh3, of ?out1 "Suc copied"]
      obtain m extra r where m: "m \<le> length ?el"
        and extra: "extra = [] \<or> (\<exists>c. extra = [(png_name (Suc index + m), File c)])"
        and rx: "r = None \<longleftrightarrow> extra = []"
        and l: "loop e names (Dir ?es3, ?out1, Suc index, Suc copied)
                  = (r,
                     Dir (AList.update (str ''backs'')
                            (Dir (?bs3 @ gen_entries e (Dir es) (Suc index) (take m ?el) @ extra)) es),
                     ?out1 @ gen_lines e (Dir es) (Suc index) (take m ?el),
                     Suc index + m, Suc copied + m)"
        by auto
      from step False l
      have "loop e (s # names) (Dir es, out, index, copied)
              = (r,
                 Dir (AList.update (str ''backs'')
                        (Dir (bs @ gen_entries e (Dir es) index (take (Suc m) (s # ?el)) @ extra)) es),
                 out @ gen_lines e (Dir es) index (take (Suc m) (s # ?el)),
                 index + Suc m, copied + Suc m)"
        by simp
      moreover have "Suc m \<le> length (filter (\<lambda>s. is_file (Dir es) (back_src s)) (s # names))"
        using m True by simp
      moreover have "extra = [] \<or> (\<exists>c. extra = [(png_name (index + Suc m), File c)])"
        using extra by simp
      ultimately show ?thesis
        using True rx by (intro exI [of _ "Suc m"] exI [of _ extra] exI [of _ r]) simp
    qed
  qed
qed

lemma main_any_run:
  assumes "is_dir fs pokemon_dir" and "\<not> is_file fs backs_dir"
  shows "\<exists>m extra r tail.
           m \<le> length (eligible fs)
           \<and> (extra = [] \<or> (\<exists>c. extra = [(png_name (Suc m), File c)]))
           \<and> (tail = [] \<or> tail = [DoneLine m])
           \<and> main e fs
               = (r,
                  Dir (AList.delete (str ''backs'') (listing fs)
                         @ [(str ''backs'', Dir (gen_entries e fs 1 (take m (eligible fs)) @ extra))]),
                  gen_lines e fs 1 (take m (eligible fs)) @ tail)"
proof -
  from assms(1) obtain es where fs: "fs = Dir es"
    using is_dir_root [of fs "str ''graphics''" "[str ''pokemon'']"]
    by (auto simp: pokemon_dir_def)
  let ?es0 = "AList.delete (str ''backs'') es"
  let ?es2 = "?es0 @ [(str ''backs'', Dir [])]"
  have none0: "map_of ?es0 (str ''backs'') = None"
    by (rule map_of_delete_same)
  have g: "map_of ?es2 (str ''graphics'') = map_of es (str ''graphics'')"
    by (simp add: map_add_def split: option.splits)
  have cl: "clean_backs fs = (None, Dir ?es2)"
    using assms(2) unfolding fs by (rule clean_backs_ok)
  have m: "map_of ?es2 (str ''backs'') = Some (Dir [])"
    using none0 by (simp add: map_add_def)
  have fresh: "\<forall>j\<ge>1. map_of [] (png_name j) = None \<and> map_of [] (txt_name j) = (None :: node option)"
    by simp
  have el: "filter (\<lambda>s. is_file (Dir ?es2) (back_src s)) (subfolders (Dir ?es2)) = eligible fs"
    unfolding fs eligible_def
    by (simp only: subfolders_cong [OF g] is_file_back_src_cong [OF g])
  have up: "AList.update (str ''backs'') (Dir X) ?es2 = ?es0 @ [(str ''backs'', Dir X)]" for X
    using none0 by (rule update_snoc_same)
  from loop_partial [OF m fresh, of "subfolders (Dir ?es2)" e "[]" 0]
  obtain k extra r where k: "k \<le> length (eligible fs)"
    and extra: "extra = [] \<or> (\<exists>c. extra = [(png_name (Suc k), File c)])"
    and l: "loop e (subfolders (Dir ?es2)) (Dir ?es2, [], 1, 0)
              = (r,
                 Dir (?es0 @ [(str ''backs'', Dir (gen_entries e fs 1 (take k (eligible fs)) @ extra))]),
                 gen_lines e fs 1 (take k (eligible fs)), Suc k, k)"
    unfolding el up by (auto simp: gen_entries_cong [OF g] gen_lines_cong [OF g] fs)
  show ?thesis
  proof (cases r)
    case None
    with assms(1) cl l have "main e fs
               = (Returned 0,
                  Dir (AList.delete (str ''backs'') (listing fs)
                         @ [(str ''backs'', Dir (gen_entries e fs 1 (take k (eligible fs)) @ extra))]),
                  gen_lines e fs 1 (take k (eligible fs)) @ [DoneLine k])"
      by (simp add: main_def fs)
    with k extra show ?thesis by blast
  next
    case (Some err)
    with assms(1) cl l have "main e fs
               = (Raised err,
                  Dir (AList.delete (str ''backs'') (listing fs)
                         @ [(str ''backs'', Dir (gen_entries e fs 1 (take k (eligible fs)) @ extra))]),
                  gen_lines e fs 1 (take k (eligible fs)) @ [])"
      by (simp add: main_def fs)
    with k extra show ?thesis by blast
  qed
qed

lemma main_progress:
  assumes "ProgressLine s i \<in> set (snd (snd (main e fs)))"
  shows "\<exists>n bs. n < length (eligible fs) \<and> eligible fs ! n = s \<and> i = Suc n
           \<and> lookup (fst (snd (main e fs))) backs_dir = Some (Dir bs)
           \<and> map_of bs (txt_name i) = Some (File BACK_CAPTION)
           \<and> map_of bs (png_name i) = Some (File (resized_bytes e i (src_bytes fs s)))"
proof -
  have d: "is_dir fs pokemon_dir"
    using assms by (cases "is_dir fs pokemon_dir") (simp_all add: main_def)
  have nf: "\<not> is_file fs backs_dir"
    using assms d by (cases "is_file fs backs_dir") (simp_all add: main_def clean_backs_file)
  from main_any_run [OF d nf, of e]
  obtain m extra r tail where m: "m \<le> length (eligible fs)"
    and tail: "tail = [] \<or> tail = [DoneLine m]"
    and run: "main e fs
               = (r,
                  Dir (AList.delete (str ''backs'') (listing fs)
                         @ [(str ''backs'', Dir (gen_entries e fs 1 (take m (eligible fs)) @ extra))]),
                  gen_lines e fs 1 (take m (eligible fs)) @ tail)"
    by blast
  from assms run tail have "ProgressLine s i \<in> set (gen_lines e fs 1 (take m (eligible fs)))"
    by auto
  then obtain n where n: "n < length (take m (eligible fs))"
    and sn: "take m (eligible fs) ! n = s" and i: "i = 1 + n"
    by (auto simp: progress_in_gen_lines)
  from n m have n': "n < length (eligible fs)" "eligible fs ! n = s"
    using sn by simp_all
  let ?bs = "gen_entries e fs 1 (take m (eligible fs)) @ extra"
  have lk: "lookup (fst (snd (main e fs))) backs_dir = Some (Dir ?bs)"
    unfolding run using lookup_backs_final [of "listing fs" "Dir ?bs" "[]"] by simp
  from map_of_gen_entries [OF n, of e fs 1] sn i
  have "map_of (gen_entries e fs 1 (take m (eligible fs))) (png_name i)
          = Some (File (resized_bytes e i (src_bytes fs s)))"
    and "map_of (gen_entries e fs 1 (take m (eligible fs))) (txt_name i) = Some (File BACK_CAPTION)"
    by simp_all
  then have "map_of ?bs (png_name i) = Some (File (resized_bytes e i (src_bytes fs s)))"
    and "map_of ?bs (txt_name i) = Some (File BACK_CAPTION)"
    by (simp_all add: map_add_def)
  with n' i lk show ?thesis by auto
qed


subsection \<open>The example\<close>

lemma example_source: "is_dir tree_example pokemon_dir"
  by (simp add: is_dir_def tree_example_def pokemon_example_def pokemon_dir_def)

lemma example_dest: "\<not> is_file tree_example backs_dir"
  by (simp add: is_file_def tree_example_def backs_dir_def)













section \<open>Claims about the run\<close>



text \<open>
  C9. No run creates, changes or removes anything below the source directory, whatever the
  host and the tool do and however the run ends: the source directory after the run is the
  source directory before it, and so is every path below it. Copies are read from there and
  written below the destination, and the resize is given the destination copy.
\<close>

theorem source_tree_never_written:
  "lookup (fst (snd (main e fs))) (pokemon_dir @ q) = lookup fs (pokemon_dir @ q)
   \<and> lookup (fst (snd (main e fs))) [str ''graphics''] = lookup fs [str ''graphics'']"
  by (simp add: pokemon_dir_def main_frame)

theorem source_tree_never_written_witness:
  "lookup (fst (snd (main host_convert tree_example))) pokemon_dir = Some pokemon_example
   \<and> lookup (fst (snd (main host_convert tree_backs_is_file))) pokemon_dir = Some pokemon_example
   \<and> lookup (fst (snd (main host_broken tree_example))) pokemon_dir = Some pokemon_example
   \<and> lookup (fst (snd (main host_convert tree_no_source))) [str ''graphics''] = Some (Dir [])"
  using source_tree_never_written [of host_convert tree_example "[]"]
    source_tree_never_written [of host_convert tree_backs_is_file "[]"]
    source_tree_never_written [of host_broken tree_example "[]"]
    source_tree_never_written [of host_convert tree_no_source "[]"]
  by (simp add: pokemon_dir_def tree_example_def tree_backs_is_file_def tree_no_source_def)

text \<open>
  C5, as stated: whenever the destination path exists it is deleted and then created, so
  that after the cleaning the destination is an empty directory. It fails where the
  destination path is a regular file: the guard of the deletion is \<^verbatim>\<open>is_dir\<close>, so nothing is
  deleted, and \<^verbatim>\<open>mkdir\<close> raises \<^verbatim>\<open>FileExistsError\<close>.
\<close>

theorem clean_backs_regular_file_counterexample:
  "is_dir tree_backs_is_file pokemon_dir
   \<and> lookup tree_backs_is_file backs_dir = Some (File ''stale'')
   \<and> clean_backs tree_backs_is_file = (Some FileExistsError, tree_backs_is_file)
   \<and> lookup (snd (clean_backs tree_backs_is_file)) backs_dir \<noteq> Some (Dir [])
   \<and> main host_convert tree_backs_is_file = (Raised FileExistsError, tree_backs_is_file, [])"
proof -
  have a: "is_dir tree_backs_is_file pokemon_dir"
    by (simp add: is_dir_def tree_backs_is_file_def pokemon_example_def pokemon_dir_def)
  have b: "lookup tree_backs_is_file backs_dir = Some (File ''stale'')"
    by (simp add: tree_backs_is_file_def backs_dir_def)
  have c: "clean_backs tree_backs_is_file = (Some FileExistsError, tree_backs_is_file)"
    by (simp add: clean_backs_def is_dir_def tree_backs_is_file_def backs_dir_def)
  from a b c show ?thesis by (simp add: main_def)
qed

text \<open>
  C5, amended: when the source directory exists and the destination path is a directory,
  the cleaning deletes it with all it holds and creates it again; when the destination
  path does not exist, the cleaning creates it. In both cases the destination is an empty
  directory afterwards and nothing outside it has changed. When the destination path is a
  regular file, nothing is deleted and the creation raises \<^verbatim>\<open>FileExistsError\<close>.
\<close>

theorem clean_backs_empties_directory:
  assumes "is_dir fs pokemon_dir"
  shows "(\<not> is_file fs backs_dir \<longrightarrow>
            (\<exists>fs1. clean_backs fs = (None, fs1)
               \<and> lookup fs1 backs_dir = Some (Dir [])
               \<and> (\<forall>x q. x \<noteq> str ''backs'' \<longrightarrow> lookup fs1 (x # q) = lookup fs (x # q))))
         \<and> (is_file fs backs_dir \<longrightarrow> clean_backs fs = (Some FileExistsError, fs))"
proof -
  from assms obtain es where fs: "fs = Dir es"
    using is_dir_root [of fs "str ''graphics''" "[str ''pokemon'']"]
    by (auto simp: pokemon_dir_def)
  have "\<exists>fs1. clean_backs fs = (None, fs1)
               \<and> lookup fs1 backs_dir = Some (Dir [])
               \<and> (\<forall>x q. x \<noteq> str ''backs'' \<longrightarrow> lookup fs1 (x # q) = lookup fs (x # q))"
    if "\<not> is_file fs backs_dir"
  proof -
    let ?fs1 = "Dir (AList.delete (str ''backs'') es @ [(str ''backs'', Dir [])])"
    have c: "clean_backs fs = (None, ?fs1)"
      using that unfolding fs by (rule clean_backs_ok)
    have e: "lookup ?fs1 backs_dir = Some (Dir [])"
      by (simp add: backs_dir_def map_add_def map_of_delete_same)
    have f: "lookup ?fs1 (x # q) = lookup fs (x # q)" if "x \<noteq> str ''backs''" for x q
      using clean_backs_frame [OF that, of fs q] c by simp
    from c e f show ?thesis by blast
  qed
  then show ?thesis using clean_backs_file by blast
qed

theorem clean_backs_empties_directory_witness:
  "is_dir tree_example pokemon_dir
   \<and> \<not> is_file tree_example backs_dir
   \<and> lookup tree_example (backs_dir @ [str ''old.txt'']) = Some (File ''x'')
   \<and> (\<exists>fs1. clean_backs tree_example = (None, fs1)
          \<and> lookup fs1 backs_dir = Some (Dir [])
          \<and> (\<forall>x q. x \<noteq> str ''backs'' \<longrightarrow> lookup fs1 (x # q) = lookup tree_example (x # q)))
   \<and> is_dir tree_backs_is_file pokemon_dir
   \<and> is_file tree_backs_is_file backs_dir
   \<and> clean_backs tree_backs_is_file = (Some FileExistsError, tree_backs_is_file)"
proof -
  have c: "lookup tree_example (backs_dir @ [str ''old.txt'']) = Some (File ''x'')"
    by (simp add: tree_example_def backs_dir_def)
  have d: "is_dir tree_backs_is_file pokemon_dir"
    by (simp add: is_dir_def tree_backs_is_file_def pokemon_example_def pokemon_dir_def)
  have e: "is_file tree_backs_is_file backs_dir"
    by (simp add: is_file_def tree_backs_is_file_def backs_dir_def)
  from example_source example_dest c d e
    clean_backs_empties_directory [OF example_source] clean_backs_empties_directory [OF d]
  show ?thesis by blast
qed

text \<open>
  C2. An immediate subdirectory of the source directory without a regular file \<^verbatim>\<open>back.png\<close>
  at its top level (one that is empty, or has the file only deeper, as in
  \<^verbatim>\<open>mega/back.png\<close>) yields no output and takes no number: from any state and whatever the
  loop has visited before, the loop over a list with the folder in it is the loop over the
  list without it, so the tree, the printed lines, \<^verbatim>\<open>index\<close> and \<^verbatim>\<open>copied\<close> come out the
  same; the folder alone leaves the state as it is; and no run prints a progress line for
  the folder.
\<close>

theorem skipped_folder_takes_no_number:
  assumes "\<not> is_file fs (pokemon_dir @ [s, str ''back.png''])"
  shows "loop e (xs @ s # ys) (fs, out, index, copied) = loop e (xs @ ys) (fs, out, index, copied)
         \<and> loop e [s] (fs, out, index, copied) = (None, fs, out, index, copied)
         \<and> s \<notin> set (eligible fs)
         \<and> (\<forall>i. ProgressLine s i \<notin> set (snd (snd (main e fs))))"
proof -
  from assms have nf: "\<not> is_file fs (back_src s)"
    by (simp add: back_src_def)
  have a: "loop e (xs @ s # ys) (fs, out, index, copied) = loop e (xs @ ys) (fs, out, index, copied)"
    using nf by (rule loop_skip)
  have b: "loop e [s] (fs, out, index, copied) = (None, fs, out, index, copied)"
    using nf by simp
  have c: "s \<notin> set (eligible fs)"
    using assms by (simp add: set_eligible)
  have d: "ProgressLine s i \<notin> set (snd (snd (main e fs)))" for i
  proof
    assume "ProgressLine s i \<in> set (snd (snd (main e fs)))"
    from main_progress [OF this] obtain n where "n < length (eligible fs)" "eligible fs ! n = s"
      by blast
    then have "s \<in> set (eligible fs)" by (metis nth_mem)
    with c show False by simp
  qed
  from a b c d show ?thesis by blast
qed

theorem skipped_folder_takes_no_number_witness:
  "\<not> is_file tree_example (pokemon_dir @ [str ''venusaur'', str ''back.png''])
   \<and> is_file tree_example (pokemon_dir @ [str ''venusaur'', str ''mega'', str ''back.png''])
   \<and> is_dir tree_example (pokemon_dir @ [str ''venusaur''])
   \<and> loop host_convert [str ''bulbasaur'', str ''venusaur'', str ''charmander''] (tree_example, [], 1, 0)
       = loop host_convert [str ''bulbasaur'', str ''charmander''] (tree_example, [], 1, 0)
   \<and> loop host_convert [str ''venusaur''] (tree_example, [], 1, 0) = (None, tree_example, [], 1, 0)
   \<and> str ''venusaur'' \<notin> set (eligible tree_example)"
proof -
  have a: "\<not> is_file tree_example (pokemon_dir @ [str ''venusaur'', str ''back.png''])"
    by (simp add: is_file_def tree_example_def pokemon_example_def pokemon_dir_def)
  have b: "is_file tree_example (pokemon_dir @ [str ''venusaur'', str ''mega'', str ''back.png''])"
    by (simp add: is_file_def tree_example_def pokemon_example_def pokemon_dir_def)
  have c: "is_dir tree_example (pokemon_dir @ [str ''venusaur''])"
    by (simp add: is_dir_def tree_example_def pokemon_example_def pokemon_dir_def)
  from a b c
    skipped_folder_takes_no_number [OF a, of host_convert "[str ''bulbasaur'']"
      "[str ''charmander'']" "[]" 1 0]
  show ?thesis by simp
qed
















end
